theory Spec2Isabelle
  imports Main
begin

section \<open>The licenses table\<close>

text \<open>
  Both \<open>main.py\<close> and \<open>manage.py\<close> create the same SQLite table \<open>licenses\<close>:
  \<open>key_str TEXT PRIMARY KEY\<close>, \<open>is_used INTEGER DEFAULT 0\<close>, \<open>hwid TEXT\<close>,
  \<open>created_at TEXT\<close>, \<open>valid_days INTEGER\<close>, \<open>activated_at TEXT\<close>, \<open>note TEXT\<close>
  (the field \<open>note_text\<close> below). A row is a record; the two columns that
  no \<open>INSERT\<close> of the repository supplies and that have no default
  (\<open>hwid\<close>, \<open>activated_at\<close>) are optional, \<open>None\<close> standing for SQL
  \<open>NULL\<close>. The table is the list of its rows in insertion order.
\<close>

record license =
  key_str :: string
  is_used :: int
  hwid :: "string option"
  created_at :: string
  valid_days :: int
  activated_at :: "string option"
  note_text :: string

type_synonym licenses = "license list"

text \<open>
  Exceptions of the \<open>sqlite3\<close> module that a statement of the repository can
  raise: \<open>IntegrityError\<close> when an \<open>INSERT\<close> repeats a primary key, and
  \<open>OverflowError\<close> when a bound Python integer does not fit SQLite's signed
  64-bit \<open>INTEGER\<close>.
\<close>

datatype sqlite_exception = IntegrityError | OverflowError

definition sqlite_integer :: "int \<Rightarrow> bool" where
  "sqlite_integer i = (- (2 ^ 63) \<le> i \<and> i < 2 ^ 63)"

text \<open>\<open>SELECT * FROM licenses WHERE key_str=?\<close> followed by \<open>fetchone()\<close>.\<close>

definition select_license :: "licenses \<Rightarrow> string \<Rightarrow> license option" where
  "select_license db key = find (\<lambda>row. key_str row = key) db"

text \<open>
  \<open>INSERT INTO licenses (key_str, valid_days, created_at, note) VALUES (?, ?, ?, ?)\<close>
  with the parameters \<open>(key, days, now, note)\<close>. In the new row \<open>is_used\<close>
  takes its default 0, and \<open>hwid\<close> and \<open>activated_at\<close> are \<open>NULL\<close>.
  Parameters are bound before the statement runs, so the overflow is raised
  first; then the primary key is checked.
\<close>

definition new_license ::
  "string \<Rightarrow> int \<Rightarrow> string \<Rightarrow> string \<Rightarrow> license" where
  "new_license key days now note_str =
     \<lparr>key_str = key, is_used = 0, hwid = None, created_at = now,
      valid_days = days, activated_at = None, note_text = note_str\<rparr>"

definition insert_license ::
  "licenses \<Rightarrow> string \<Rightarrow> int \<Rightarrow> string \<Rightarrow> string \<Rightarrow>
   sqlite_exception + licenses" where
  "insert_license db key days now note_str =
     (if \<not> sqlite_integer days then Inl OverflowError
      else if select_license db key \<noteq> None then Inl IntegrityError
      else Inr (db @ [new_license key days now note_str]))"

text \<open>\<open>UPDATE licenses SET is_used=1, hwid=?, activated_at=? WHERE key_str=?\<close>.\<close>

definition update_license ::
  "licenses \<Rightarrow> string \<Rightarrow> string \<Rightarrow> string \<Rightarrow> licenses" where
  "update_license db machine now key =
     map (\<lambda>row. if key_str row = key
                 then row\<lparr>is_used := 1, hwid := Some machine, activated_at := Some now\<rparr>
                 else row) db"

section \<open>Key generation\<close>

text \<open>
  The loop shared by \<open>generate_license\<close> (\<open>main.py\<close>) and \<open>generate_keys\<close>
  (\<open>manage.py\<close>):
  \<^verbatim>\<open>
    for _ in range(count):
        key = str(uuid.uuid4()).upper()
        now = datetime.datetime.now().isoformat()
        cursor.execute("INSERT ...", (key, days, now, note))
        keys.append(key)
  \<close>
  The two readings of the environment are parameters: \<open>uuid4 i\<close> is the
  upper-cased UUID string drawn in iteration \<open>i\<close> and \<open>clock i\<close> the ISO time
  read there. The loop works on the connection's uncommitted view of the
  table: the first \<open>INSERT\<close> opens a write transaction and the rows inserted
  are not committed by the loop. An exception leaves the loop at once; it is
  returned with the uncommitted view at that moment.
\<close>

fun insert_loop ::
  "(nat \<Rightarrow> string) \<Rightarrow> (nat \<Rightarrow> string) \<Rightarrow> nat \<Rightarrow> nat \<Rightarrow> int \<Rightarrow> string \<Rightarrow>
   string list \<Rightarrow> licenses \<Rightarrow>
   (sqlite_exception \<times> licenses) + (string list \<times> licenses)" where
  "insert_loop uuid4 clock i 0 days note_str keys db = Inr (keys, db)"
| "insert_loop uuid4 clock i (Suc n) days note_str keys db =
     (case insert_license db (uuid4 i) days (clock i) note_str of
        Inl e \<Rightarrow> Inl (e, db)
      | Inr db' \<Rightarrow> insert_loop uuid4 clock (Suc i) n days note_str (keys @ [uuid4 i]) db')"

text \<open>
  Neither \<open>generate_license\<close> nor \<open>generate_keys\<close> has a \<open>try\<close> around its
  loop. When an \<open>INSERT\<close> raises, \<open>conn.commit()\<close> and \<open>conn.close()\<close> are
  not reached and nothing rolls the transaction back: the exception leaves the
  function with the connection still open inside its write transaction. An
  exception raised this way is kept together with \<open>uncommitted\<close>, the table as
  that abandoned connection sees it. The rows it holds beyond the committed
  ones are never committed; as long as the connection object lives, SQLite
  keeps the write lock on the database file for it, so that a write from
  another connection is refused (\<open>database is locked\<close>).

  In the results below the table component is always the committed table, and
  every function is modelled for a call that finds the database not locked by
  another connection.
\<close>

datatype raised = Raised (exception: sqlite_exception) (uncommitted: licenses)

text \<open>
  \<open>generate_keys\<close> of \<open>manage.py\<close>. \<open>range(count)\<close> is empty for
  \<open>count \<le> 0\<close>. \<open>conn.commit()\<close> is reached only when every insert went
  through; an exception propagates to the caller with nothing committed, so the
  committed table is then the one before the call, and the connection is left
  open.
\<close>

definition generate_keys ::
  "(nat \<Rightarrow> string) \<Rightarrow> (nat \<Rightarrow> string) \<Rightarrow> licenses \<Rightarrow> int \<Rightarrow> int \<Rightarrow> string \<Rightarrow>
   (raised + string list) \<times> licenses" where
  "generate_keys uuid4 clock db count days note_str =
     (case insert_loop uuid4 clock 0 (nat count) days note_str [] db of
        Inl (e, db') \<Rightarrow> (Inl (Raised e db'), db)
      | Inr (keys, db') \<Rightarrow> (Inr keys, db'))"

text \<open>
  The \<open>gen\<close> command of \<open>main()\<close> in \<open>manage.py\<close>, on the parsed arguments. It
  returns the exit status and what was printed: an error line on stderr, or the
  keys on stdout, one per line. An exception of \<open>generate_keys\<close> is not caught
  either and ends the process, and with it the connection: only the exception
  remains.
\<close>

datatype printed = Stderr string | Stdout "string list"

definition main ::
  "(nat \<Rightarrow> string) \<Rightarrow> (nat \<Rightarrow> string) \<Rightarrow> licenses \<Rightarrow> int \<Rightarrow> int \<Rightarrow> string \<Rightarrow>
   (sqlite_exception + int \<times> printed) \<times> licenses" where
  "main uuid4 clock db count days note_str =
     (if count < 1 \<or> count > 100
      then (Inr (1, Stderr ''Error: --count must be between 1 and 100.''), db)
      else if days \<noteq> - 1 \<and> days \<le> 0
      then (Inr (1, Stderr ''Error: --days must be -1 or a positive integer.''), db)
      else case generate_keys uuid4 clock db count days note_str of
             (Inl r, db') \<Rightarrow> (Inl (exception r), db')
           | (Inr keys, db') \<Rightarrow> (Inr (0, Stdout keys), db'))"

text \<open>
  \<open>generate_license\<close> of \<open>main.py\<close>, the handler of \<open>POST /admin/generate\<close>.
  The page of a response is kept structured: the password page, or the success
  page with the count and the keys it shows. The password is tested before
  \<open>get_db_connection()\<close>. An exception of the loop leaves the handler as it
  leaves \<open>generate_keys\<close>: nothing committed, the connection abandoned inside
  its write transaction, in a server process that goes on running.
\<close>

definition ADMIN_PASSWORD :: string where
  "ADMIN_PASSWORD = ''your_secret_password''"

datatype page = PasswordErrorPage | GeneratedPage int "string list"

datatype html_response = HTMLResponse (content: page) (status_code: int)

definition generate_license ::
  "(nat \<Rightarrow> string) \<Rightarrow> (nat \<Rightarrow> string) \<Rightarrow> licenses \<Rightarrow> string \<Rightarrow> int \<Rightarrow> int \<Rightarrow> string \<Rightarrow>
   (raised + html_response) \<times> licenses" where
  "generate_license uuid4 clock db password count days note_str =
     (if password \<noteq> ADMIN_PASSWORD then (Inr (HTMLResponse PasswordErrorPage 403), db)
      else case insert_loop uuid4 clock 0 (nat count) days note_str [] db of
             Inl (e, db') \<Rightarrow> (Inl (Raised e db'), db)
           | Inr (keys, db') \<Rightarrow> (Inr (HTMLResponse (GeneratedPage count keys) 200), db'))"

section \<open>Activation\<close>

text \<open>
  The string literals of \<open>activate\<close> are Chinese; they are given as their
  UTF-8 bytes. None of them is built from the request or from the row.
\<close>

definition detail_not_found :: string where
  "detail_not_found =
     [CHR 0xE5, CHR 0xAF, CHR 0x86, CHR 0xE9, CHR 0x92, CHR 0xA5, CHR 0xE4, CHR 0xB8,
      CHR 0x8D, CHR 0xE5, CHR 0xAD, CHR 0x98, CHR 0xE5, CHR 0x9C, CHR 0xA8]"

definition detail_other_device :: string where
  "detail_other_device =
     [CHR 0xE8, CHR 0xAF, CHR 0xA5, CHR 0xE5, CHR 0xAF, CHR 0x86, CHR 0xE9, CHR 0x92,
      CHR 0xA5, CHR 0xE5, CHR 0xB7, CHR 0xB2, CHR 0xE8, CHR 0xA2, CHR 0xAB, CHR 0xE5,
      CHR 0x85, CHR 0xB6, CHR 0xE4, CHR 0xBB, CHR 0x96, CHR 0xE8, CHR 0xAE, CHR 0xBE,
      CHR 0xE5, CHR 0xA4, CHR 0x87, CHR 0xE6, CHR 0xBF, CHR 0x80, CHR 0xE6, CHR 0xB4,
      CHR 0xBB, CHR 0xEF, CHR 0xBC, CHR 0x8C, CHR 0xE6, CHR 0x97, CHR 0xA0, CHR 0xE6,
      CHR 0xB3, CHR 0x95, CHR 0xE9, CHR 0x87, CHR 0x8D, CHR 0xE5, CHR 0xA4, CHR 0x8D,
      CHR 0xE4, CHR 0xBD, CHR 0xBF, CHR 0xE7, CHR 0x94, CHR 0xA8]"

definition msg_welcome_back :: string where
  "msg_welcome_back =
     [CHR 0xE6, CHR 0xAC, CHR 0xA2, CHR 0xE8, CHR 0xBF, CHR 0x8E, CHR 0xE5, CHR 0x9B,
      CHR 0x9E, CHR 0xE6, CHR 0x9D, CHR 0xA5]"

definition msg_activated :: string where
  "msg_activated =
     [CHR 0xE6, CHR 0xBF, CHR 0x80, CHR 0xE6, CHR 0xB4, CHR 0xBB, CHR 0xE6, CHR 0x88,
      CHR 0x90, CHR 0xE5, CHR 0x8A, CHR 0x9F]"

datatype http_exception = HTTPException int string

record activation =
  status :: string
  msg :: string
  days :: int

text \<open>
  \<open>activate\<close> of \<open>main.py\<close>, the handler of \<open>POST /api/activate\<close>, on the
  fields \<open>key\<close> and \<open>hwid\<close> of the request. \<open>now\<close> is the ISO time read
  before the \<open>UPDATE\<close>.
\<close>

definition activate ::
  "string \<Rightarrow> licenses \<Rightarrow> string \<Rightarrow> string \<Rightarrow>
   (http_exception + activation) \<times> licenses" where
  "activate now db key machine =
     (case select_license db key of
        None \<Rightarrow> (Inl (HTTPException 404 detail_not_found), db)
      | Some license_data \<Rightarrow>
          if is_used license_data = 1 then
            if hwid license_data = Some machine
            then (Inr \<lparr>status = ''success'', msg = msg_welcome_back,
                       days = valid_days license_data\<rparr>, db)
            else (Inl (HTTPException 403 detail_other_device), db)
          else (Inr \<lparr>status = ''success'', msg = msg_activated,
                     days = valid_days license_data\<rparr>,
                update_license db machine now key))"

subsection \<open>Two requests at once\<close>

text \<open>
  \<open>activate\<close> runs two SQL statements, the \<open>SELECT\<close> and, for an unused
  key, the \<open>UPDATE\<close> with its commit; nothing in the handler ties them
  together (no transaction around both, no lock, no condition on \<open>is_used\<close>
  in the \<open>UPDATE\<close>). A request is therefore served in two steps. After the
  first it is either answered (unknown key, or key in use) or it holds the row
  it has read, \<open>license_data\<close>, and still has to write.
\<close>

datatype request =
    Arrived string string
  | Selected string string license
  | Answered "http_exception + activation"

definition activate_select :: "licenses \<Rightarrow> string \<Rightarrow> string \<Rightarrow> request" where
  "activate_select db key machine =
     (case select_license db key of
        None \<Rightarrow> Answered (Inl (HTTPException 404 detail_not_found))
      | Some license_data \<Rightarrow>
          if is_used license_data = 1 then
            if hwid license_data = Some machine
            then Answered (Inr \<lparr>status = ''success'', msg = msg_welcome_back,
                                days = valid_days license_data\<rparr>)
            else Answered (Inl (HTTPException 403 detail_other_device))
          else Selected key machine license_data)"

definition activate_update ::
  "string \<Rightarrow> licenses \<Rightarrow> string \<Rightarrow> string \<Rightarrow> license \<Rightarrow>
   (http_exception + activation) \<times> licenses" where
  "activate_update now db key machine license_data =
     (Inr \<lparr>status = ''success'', msg = msg_activated, days = valid_days license_data\<rparr>,
      update_license db machine now key)"

fun activate_step :: "string \<Rightarrow> licenses \<Rightarrow> request \<Rightarrow> request \<times> licenses" where
  "activate_step now db (Arrived key machine) = (activate_select db key machine, db)"
| "activate_step now db (Selected key machine license_data) =
     (case activate_update now db key machine license_data of
        (answer, db') \<Rightarrow> (Answered answer, db'))"
| "activate_step now db (Answered answer) = (Answered answer, db)"

text \<open>
  Two requests and a schedule: the list says whose step comes next;
  \<open>now1\<close> and \<open>now2\<close> are the times the two requests read before writing.
  A single event loop serves the handler, which never awaits, in one piece:
  its schedules are \<open>[First, First, Second, Second]\<close> and
  \<open>[Second, Second, First, First]\<close>. The other schedules need the two
  requests to be served by different processes on the same database file.
\<close>

datatype turn = First | Second

fun serve ::
  "turn list \<Rightarrow> string \<Rightarrow> string \<Rightarrow> licenses \<Rightarrow> request \<Rightarrow> request \<Rightarrow>
   request \<times> request \<times> licenses" where
  "serve [] now1 now2 db a b = (a, b, db)"
| "serve (First # turns) now1 now2 db a b =
     (case activate_step now1 db a of (a', db') \<Rightarrow> serve turns now1 now2 db' a' b)"
| "serve (Second # turns) now1 now2 db a b =
     (case activate_step now2 db b of (b', db') \<Rightarrow> serve turns now1 now2 db' a b')"

section \<open>States, reachable tables and example environments\<close>

text \<open>
  The specification's two states, read off a row the way \<open>activate\<close> reads
  it: the row is activated when \<open>is_used == 1\<close>.
\<close>

datatype state = Unactivated | Activated

definition state_of :: "license \<Rightarrow> state" where
  "state_of row = (if is_used row = 1 then Activated else Unactivated)"

definition bound_iff_activated :: "license \<Rightarrow> bool" where
  "bound_iff_activated row =
     ((hwid row = None \<and> activated_at row = None \<longleftrightarrow> state_of row = Unactivated) \<and>
      (hwid row \<noteq> None \<and> activated_at row \<noteq> None \<longleftrightarrow> state_of row = Activated))"

text \<open>
  The tables the program can produce: \<open>init_db\<close> creates the empty table,
  and every entry point of the two files takes a stored table to the next one,
  whatever its arguments and whatever the environment supplies.
\<close>

inductive reachable :: "licenses \<Rightarrow> bool" where
  init_db: "reachable []"
| generate_license:
    "reachable db \<Longrightarrow>
     reachable (snd (generate_license uuid4 clock db password count ndays note_str))"
| generate_keys:
    "reachable db \<Longrightarrow> reachable (snd (generate_keys uuid4 clock db count ndays note_str))"
| main:
    "reachable db \<Longrightarrow> reachable (snd (main uuid4 clock db count ndays note_str))"
| activate:
    "reachable db \<Longrightarrow> reachable (snd (activate now db key machine))"

text \<open>
  Example environments for the concrete runs below: a UUID source whose first
  thousand draws are pairwise different, one that repeats a single UUID, and a
  clock; then a row as the first draw creates it, and the same row after its
  activation from the machine \<open>HWID-A1\<close>.
\<close>

definition example_uuid4 :: "nat \<Rightarrow> string" where
  "example_uuid4 i =
     ''3F2504E0-4F89-41D3-9A0C-0305E82C3'' @
     [''0123456789'' ! (i div 100 mod 10), ''0123456789'' ! (i div 10 mod 10),
      ''0123456789'' ! (i mod 10)]"

definition repeating_uuid4 :: "nat \<Rightarrow> string" where
  "repeating_uuid4 i = ''3F2504E0-4F89-41D3-9A0C-0305E82C3301''"

definition example_clock :: "nat \<Rightarrow> string" where
  "example_clock i = ''2024-05-01T12:00:00.000000''"

definition example_fresh :: license where
  "example_fresh = new_license (example_uuid4 0) 30 (example_clock 0) ''pilot''"

definition example_bound :: license where
  "example_bound =
     example_fresh\<lparr>is_used := 1, hwid := Some ''HWID-A1'',
                   activated_at := Some ''2024-05-02T09:30:00.000000''\<rparr>"

section \<open>Facts about the table operations\<close>

lemma select_license_append:
  "select_license (db @ [row]) key =
     (case select_license db key of
        Some r \<Rightarrow> Some r
      | None \<Rightarrow> if key_str row = key then Some row else None)"
  by (induction db) (auto simp: select_license_def)

lemma select_license_update_same:
  "select_license (update_license db machine now key) key =
     map_option (\<lambda>row. row\<lparr>is_used := 1, hwid := Some machine, activated_at := Some now\<rparr>)
       (select_license db key)"
  by (induction db) (auto simp: select_license_def update_license_def)

lemma select_license_update_other:
  "key' \<noteq> key \<Longrightarrow>
   select_license (update_license db machine now key) key' = select_license db key'"
  by (induction db) (auto simp: select_license_def update_license_def)

lemma select_license_Some:
  "select_license db key = Some row \<Longrightarrow> row \<in> set db \<and> key_str row = key"
  by (induction db) (auto simp: select_license_def split: if_splits)

lemma select_license_None:
  "select_license db key = None \<longleftrightarrow> key \<notin> key_str ` set db"
  by (induction db) (auto simp: select_license_def)

lemma insert_loop_fresh:
  "sqlite_integer ndays \<Longrightarrow>
   \<forall>i<n. select_license db (uuid4 (s + i)) = None \<Longrightarrow>
   inj_on uuid4 {s..<s + n} \<Longrightarrow>
   insert_loop uuid4 clock s n ndays note_str keys db =
     Inr (keys @ map uuid4 [s..<s + n],
          db @ map (\<lambda>i. new_license (uuid4 i) ndays (clock i) note_str) [s..<s + n])"
proof (induction n arbitrary: s keys db)
  case 0
  then show ?case by simp
next
  case (Suc n)
  from Suc.prems(2) have fresh0: "select_license db (uuid4 s) = None"
    by (metis add.right_neutral zero_less_Suc)
  let ?db = "db @ [new_license (uuid4 s) ndays (clock s) note_str]"
  have ins: "insert_license db (uuid4 s) ndays (clock s) note_str = Inr ?db"
    using Suc.prems(1) fresh0 by (simp add: insert_license_def new_license_def)
  have fresh: "\<forall>i<n. select_license ?db (uuid4 (Suc s + i)) = None"
  proof (intro allI impI)
    fix i assume "i < n"
    then have a: "select_license db (uuid4 (s + Suc i)) = None"
      using Suc.prems(2) by (meson Suc_less_eq)
    have "uuid4 s \<noteq> uuid4 (s + Suc i)"
    proof
      assume eq: "uuid4 s = uuid4 (s + Suc i)"
      have "s \<in> {s..<s + Suc n}" "s + Suc i \<in> {s..<s + Suc n}"
        using \<open>i < n\<close> by simp_all
      with Suc.prems(3) eq have "s = s + Suc i" by (rule inj_onD)
      then show False by simp
    qed
    with a show "select_license ?db (uuid4 (Suc s + i)) = None"
      by (simp add: select_license_append new_license_def)
  qed
  have inj: "inj_on uuid4 {Suc s..<Suc s + n}"
    using Suc.prems(3) by (rule inj_on_subset) auto
  have upt: "[s..<s + Suc n] = s # [Suc s..<Suc s + n]"
    by (simp add: upt_rec)
  have "insert_loop uuid4 clock s (Suc n) ndays note_str keys db =
          insert_loop uuid4 clock (Suc s) n ndays note_str (keys @ [uuid4 s]) ?db"
    using ins by simp
  also have "\<dots> = Inr ((keys @ [uuid4 s]) @ map uuid4 [Suc s..<Suc s + n],
                      ?db @ map (\<lambda>i. new_license (uuid4 i) ndays (clock i) note_str)
                              [Suc s..<Suc s + n])"
    by (rule Suc.IH [OF Suc.prems(1) fresh inj])
  finally show ?case
    unfolding upt by (simp del: upt_Suc)
qed

lemma insert_loop_collision:
  "sqlite_integer ndays \<Longrightarrow> i < n \<Longrightarrow>
   select_license db (uuid4 (s + i)) \<noteq> None \<or> (\<exists>j<i. uuid4 (s + j) = uuid4 (s + i)) \<Longrightarrow>
   \<exists>db'. insert_loop uuid4 clock s n ndays note_str keys db = Inl (IntegrityError, db')"
proof (induction n arbitrary: s keys db i)
  case 0
  then show ?case by simp
next
  case (Suc n)
  show ?case
  proof (cases "select_license db (uuid4 s) = None")
    case False
    then show ?thesis using Suc.prems(1) by (simp add: insert_license_def)
  next
    case True
    let ?db = "db @ [new_license (uuid4 s) ndays (clock s) note_str]"
    have ins: "insert_license db (uuid4 s) ndays (clock s) note_str = Inr ?db"
      using Suc.prems(1) True by (simp add: insert_license_def new_license_def)
    from True Suc.prems(3) have "i \<noteq> 0" by (cases i) auto
    then obtain i' where i': "i = Suc i'" by (cases i) auto
    with Suc.prems(2) have lt: "i' < n" by simp
    have col: "select_license ?db (uuid4 (Suc s + i')) \<noteq> None \<or>
               (\<exists>j<i'. uuid4 (Suc s + j) = uuid4 (Suc s + i'))"
    proof (cases "select_license db (uuid4 (s + i)) \<noteq> None")
      case True
      then show ?thesis by (auto simp: select_license_append i' split: option.splits)
    next
      case False
      with Suc.prems(3) obtain j where j: "j < i" "uuid4 (s + j) = uuid4 (s + i)" by blast
      show ?thesis
      proof (cases j)
        case 0
        with j have "uuid4 s = uuid4 (Suc s + i')" by (simp add: i')
        then show ?thesis
          by (auto simp: select_license_append new_license_def split: option.splits)
      next
        case (Suc j')
        with j have "j' < i'" "uuid4 (Suc s + j') = uuid4 (Suc s + i')" by (simp_all add: i')
        then show ?thesis by blast
      qed
    qed
    show ?thesis using Suc.IH [OF Suc.prems(1) lt col] ins by simp
  qed
qed

lemma bound_iff_activated_new: "bound_iff_activated (new_license key ndays now note_str)"
  by (simp add: bound_iff_activated_def state_of_def new_license_def)

lemma insert_license_invariant:
  assumes "insert_license db key ndays now note_str = Inr db'"
    and "\<forall>row\<in>set db. bound_iff_activated row"
  shows "\<forall>row\<in>set db'. bound_iff_activated row"
proof -
  from assms(1) have "db' = db @ [new_license key ndays now note_str]"
    by (simp add: insert_license_def split: if_splits)
  with assms(2) show ?thesis by (simp add: bound_iff_activated_new)
qed

lemma insert_loop_invariant:
  "insert_loop uuid4 clock i n ndays note_str keys db = Inr (keys', db') \<Longrightarrow>
   \<forall>row\<in>set db. bound_iff_activated row \<Longrightarrow> \<forall>row\<in>set db'. bound_iff_activated row"
proof (induction n arbitrary: i keys db)
  case 0
  then show ?case by simp
next
  case (Suc n)
  from Suc.prems(1) obtain db1 where
    ins: "insert_license db (uuid4 i) ndays (clock i) note_str = Inr db1" and
    rest: "insert_loop uuid4 clock (Suc i) n ndays note_str (keys @ [uuid4 i]) db1 = Inr (keys', db')"
    by (auto split: sum.splits)
  from insert_license_invariant [OF ins Suc.prems(2)]
  have "\<forall>row\<in>set db1. bound_iff_activated row" .
  with rest show ?case by (rule Suc.IH)
qed

lemma bound_iff_activated_update:
  "bound_iff_activated (row\<lparr>is_used := 1, hwid := Some machine, activated_at := Some now\<rparr>)"
  by (simp add: bound_iff_activated_def state_of_def)

lemma update_license_invariant:
  "\<forall>row\<in>set db. bound_iff_activated row \<Longrightarrow>
   \<forall>row\<in>set (update_license db machine now key). bound_iff_activated row"
  by (induction db) (simp_all add: update_license_def bound_iff_activated_update)

lemma generate_license_invariant:
  assumes "\<forall>row\<in>set db. bound_iff_activated row"
  shows "\<forall>row\<in>set (snd (generate_license uuid4 clock db password count ndays note_str)).
           bound_iff_activated row"
proof (cases "insert_loop uuid4 clock 0 (nat count) ndays note_str [] db")
  case (Inl e)
  with assms show ?thesis by (cases e) (simp add: generate_license_def)
next
  case (Inr r)
  obtain keys db' where r: "r = (keys, db')" by (cases r)
  from Inr have "\<forall>row\<in>set db'. bound_iff_activated row"
    unfolding r using assms by (rule insert_loop_invariant)
  with assms Inr r show ?thesis by (simp add: generate_license_def)
qed

lemma generate_keys_invariant:
  assumes "\<forall>row\<in>set db. bound_iff_activated row"
  shows "\<forall>row\<in>set (snd (generate_keys uuid4 clock db count ndays note_str)).
           bound_iff_activated row"
proof (cases "insert_loop uuid4 clock 0 (nat count) ndays note_str [] db")
  case (Inl e)
  with assms show ?thesis by (cases e) (simp add: generate_keys_def)
next
  case (Inr r)
  obtain keys db' where r: "r = (keys, db')" by (cases r)
  from Inr have "\<forall>row\<in>set db'. bound_iff_activated row"
    unfolding r using assms by (rule insert_loop_invariant)
  with Inr r show ?thesis by (simp add: generate_keys_def)
qed

lemma main_invariant:
  assumes "\<forall>row\<in>set db. bound_iff_activated row"
  shows "\<forall>row\<in>set (snd (main uuid4 clock db count ndays note_str)). bound_iff_activated row"
proof -
  obtain r db' where g: "generate_keys uuid4 clock db count ndays note_str = (r, db')"
    by (cases "generate_keys uuid4 clock db count ndays note_str")
  from generate_keys_invariant [OF assms, of uuid4 clock count ndays note_str] g
  have "\<forall>row\<in>set db'. bound_iff_activated row" by simp
  with assms g show ?thesis by (cases r) (simp_all add: main_def)
qed

lemma activate_invariant:
  assumes "\<forall>row\<in>set db. bound_iff_activated row"
  shows "\<forall>row\<in>set (snd (activate now db key machine)). bound_iff_activated row"
proof (cases "select_license db key")
  case None
  with assms show ?thesis by (simp add: activate_def)
next
  case (Some license_data)
  with assms update_license_invariant [OF assms, of machine now key] show ?thesis
    by (simp add: activate_def)
qed

lemma reachable_invariant:
  "reachable db \<Longrightarrow> \<forall>row\<in>set db. bound_iff_activated row"
proof (induction rule: reachable.induct)
  case init_db
  show ?case by simp
next
  case (generate_license db uuid4 clock password count ndays note_str)
  from generate_license.IH show ?case by (rule generate_license_invariant)
next
  case (generate_keys db uuid4 clock count ndays note_str)
  from generate_keys.IH show ?case by (rule generate_keys_invariant)
next
  case (main db uuid4 clock count ndays note_str)
  from main.IH show ?case by (rule main_invariant)
next
  case (activate db now key machine)
  from activate.IH show ?case by (rule activate_invariant)
qed

section \<open>Facts about the example environments\<close>

lemma example_uuid4_0: "example_uuid4 0 = ''3F2504E0-4F89-41D3-9A0C-0305E82C3000''"
  by (simp add: example_uuid4_def)

lemma example_uuid4_1: "example_uuid4 (Suc 0) = ''3F2504E0-4F89-41D3-9A0C-0305E82C3001''"
  by (simp add: example_uuid4_def)

lemma digit_inj:
  assumes "a < 10" and "b < 10" and "''0123456789'' ! a = ''0123456789'' ! b"
  shows "a = b"
proof -
  have d: "distinct ''0123456789''" by simp
  have "a < length ''0123456789''" "b < length ''0123456789''" using assms by simp_all
  with d assms(3) show "a = b" by (simp only: nth_eq_iff_index_eq)
qed

lemma decimal_digits:
  assumes "(z::nat) < 1000"
  shows "z = 100 * (z div 100 mod 10) + 10 * (z div 10 mod 10) + z mod 10"
proof -
  have a: "z = 10 * (z div 10) + z mod 10" by simp
  have b: "z div 10 = 10 * (z div 10 div 10) + z div 10 mod 10" by simp
  have c: "z div 10 div 10 = z div 100" by (simp add: div_mult2_eq [symmetric])
  from assms have d: "z div 100 mod 10 = z div 100" by simp
  from a b c d show ?thesis by linarith
qed

lemma example_uuid4_inj: "inj_on example_uuid4 {0..<101}"
proof (rule inj_onI)
  fix x y assume x: "x \<in> {0..<101}" and y: "y \<in> {0..<101}"
    and eq: "example_uuid4 x = example_uuid4 y"
  from eq have e: "''0123456789'' ! (x div 10 mod 10) = ''0123456789'' ! (y div 10 mod 10)"
    "''0123456789'' ! (x mod 10) = ''0123456789'' ! (y mod 10)"
    "''0123456789'' ! (x div 100 mod 10) = ''0123456789'' ! (y div 100 mod 10)"
    by (simp_all add: example_uuid4_def)
  have "x div 10 mod 10 = y div 10 mod 10"
    by (rule digit_inj [OF _ _ e(1)]) simp_all
  moreover have "x mod 10 = y mod 10"
    by (rule digit_inj [OF _ _ e(2)]) simp_all
  moreover have "x div 100 mod 10 = y div 100 mod 10"
    by (rule digit_inj [OF _ _ e(3)]) simp_all
  moreover have "x < 1000" "y < 1000" using x y by simp_all
  ultimately show "x = y" using decimal_digits [of x] decimal_digits [of y] by simp
qed

lemma insert_loop_101:
  "insert_loop example_uuid4 example_clock 0 101 (- 1) [] [] [] =
     Inr (map example_uuid4 [0..<101],
          map (\<lambda>i. new_license (example_uuid4 i) (- 1) (example_clock i) []) [0..<101])"
proof -
  have a: "sqlite_integer (- 1)" by (simp add: sqlite_integer_def)
  have b: "\<forall>i<101. select_license [] (example_uuid4 (0 + i)) = None"
    by (simp add: select_license_def)
  have c: "inj_on example_uuid4 {0..<0 + 101}"
    using example_uuid4_inj by (simp only: add.left_neutral)
  show ?thesis
    using insert_loop_fresh [OF a b c, of example_clock "[]" "[]"]
    by (simp only: append_Nil add.left_neutral)
qed

section \<open>The invariant of the table\<close>

text \<open>
  C2. In every table the program can reach, every row has \<open>hwid\<close> and
  \<open>activated_at\<close> both unset exactly when it is unactivated and both set
  exactly when it is activated. Reachability is closed under every entry point
  (\<open>generate_license\<close>, \<open>generate_keys\<close>, \<open>main\<close>, \<open>activate\<close>), and each of
  them preserves the property (lemmas \<open>generate_license_invariant\<close>,
  \<open>generate_keys_invariant\<close>, \<open>main_invariant\<close>, \<open>activate_invariant\<close>).
\<close>

theorem reachable_bound_iff_activated:
  assumes "reachable db" and "row \<in> set db"
  shows "(hwid row = None \<and> activated_at row = None \<longleftrightarrow> state_of row = Unactivated) \<and>
         (hwid row \<noteq> None \<and> activated_at row \<noteq> None \<longleftrightarrow> state_of row = Activated)"
  using reachable_invariant [OF assms(1)] assms(2) by (simp add: bound_iff_activated_def)

text \<open>
  A run: two keys are issued and the second is activated from \<open>HWID-A1\<close>.
\<close>

theorem reachable_bound_iff_activated_witness:
  "reachable [example_fresh, example_bound\<lparr>key_str := example_uuid4 (Suc 0)\<rparr>] \<and>
   example_bound\<lparr>key_str := example_uuid4 (Suc 0)\<rparr> \<in>
     set [example_fresh, example_bound\<lparr>key_str := example_uuid4 (Suc 0)\<rparr>] \<and>
   (hwid (example_bound\<lparr>key_str := example_uuid4 (Suc 0)\<rparr>) = None \<and>
    activated_at (example_bound\<lparr>key_str := example_uuid4 (Suc 0)\<rparr>) = None \<longleftrightarrow>
    state_of (example_bound\<lparr>key_str := example_uuid4 (Suc 0)\<rparr>) = Unactivated) \<and>
   (hwid (example_bound\<lparr>key_str := example_uuid4 (Suc 0)\<rparr>) \<noteq> None \<and>
    activated_at (example_bound\<lparr>key_str := example_uuid4 (Suc 0)\<rparr>) \<noteq> None \<longleftrightarrow>
    state_of (example_bound\<lparr>key_str := example_uuid4 (Suc 0)\<rparr>) = Activated) \<and>
   state_of (example_bound\<lparr>key_str := example_uuid4 (Suc 0)\<rparr>) = Activated"
proof -
  let ?issued = "snd (generate_license example_uuid4 example_clock [] ADMIN_PASSWORD 2 30 ''pilot'')"
  let ?db = "snd (activate ''2024-05-02T09:30:00.000000'' ?issued (example_uuid4 (Suc 0)) ''HWID-A1'')"
  let ?row = "example_bound\<lparr>key_str := example_uuid4 (Suc 0)\<rparr>"
  have two: "nat 2 = Suc (Suc 0)" by simp
  have issued: "?issued = [example_fresh, example_fresh\<lparr>key_str := example_uuid4 (Suc 0)\<rparr>]"
    unfolding generate_license_def two
    by (simp add: insert_license_def new_license_def select_license_def sqlite_integer_def
          example_uuid4_0 example_uuid4_1 example_clock_def example_fresh_def)
  have db: "?db = [example_fresh, ?row]"
    unfolding issued
    by (simp add: activate_def update_license_def new_license_def select_license_def
          example_uuid4_0 example_uuid4_1 example_fresh_def example_bound_def)
  have "reachable ?issued"
    by (rule reachable.generate_license) (rule reachable.init_db)
  then have "reachable ?db" by (rule reachable.activate)
  then have r: "reachable [example_fresh, ?row]" by (simp only: db)
  have m: "?row \<in> set [example_fresh, ?row]" by simp
  have st: "state_of ?row = Activated" by (simp add: state_of_def example_bound_def)
  from reachable_bound_iff_activated [OF r m] r m st show ?thesis by simp
qed

section \<open>Issuance\<close>

text \<open>
  C3. A count outside 1..100 should be refused with nothing created. The
  command-line \<open>main\<close> refuses it; the handler \<open>generate_license\<close> does not
  look at the count: with the right password, count 0 answers the success page
  with no key, and count 101 inserts 101 rows.
\<close>

theorem generate_license_count_unchecked:
  "generate_license example_uuid4 example_clock [] ADMIN_PASSWORD 0 (- 1) [] =
     (Inr (HTMLResponse (GeneratedPage 0 []) 200), []) \<and>
   fst (generate_license example_uuid4 example_clock [] ADMIN_PASSWORD 101 (- 1) []) =
     Inr (HTMLResponse (GeneratedPage 101 (map example_uuid4 [0..<101])) 200) \<and>
   length (snd (generate_license example_uuid4 example_clock [] ADMIN_PASSWORD 101 (- 1) [])) = 101 \<and>
   main example_uuid4 example_clock [] 0 (- 1) [] =
     (Inr (1, Stderr ''Error: --count must be between 1 and 100.''), []) \<and>
   main example_uuid4 example_clock [] 101 (- 1) [] =
     (Inr (1, Stderr ''Error: --count must be between 1 and 100.''), [])"
proof -
  have n: "nat 101 = 101" by simp
  have g: "generate_license example_uuid4 example_clock [] ADMIN_PASSWORD 101 (- 1) [] =
     (Inr (HTMLResponse (GeneratedPage 101 (map example_uuid4 [0..<101])) 200),
      map (\<lambda>i. new_license (example_uuid4 i) (- 1) (example_clock i) []) [0..<101])"
    unfolding generate_license_def n insert_loop_101 by simp
  have z: "generate_license example_uuid4 example_clock [] ADMIN_PASSWORD 0 (- 1) [] =
     (Inr (HTMLResponse (GeneratedPage 0 []) 200), [])"
    by (simp add: generate_license_def)
  have m: "main example_uuid4 example_clock [] 0 (- 1) [] =
     (Inr (1, Stderr ''Error: --count must be between 1 and 100.''), [])"
    "main example_uuid4 example_clock [] 101 (- 1) [] =
     (Inr (1, Stderr ''Error: --count must be between 1 and 100.''), [])"
    by (simp_all add: main_def)
  show ?thesis unfolding g z m by simp
qed

text \<open>
  C5. A validity that is neither -1 nor positive should be refused with nothing
  created. \<open>main\<close> refuses it; \<open>generate_license\<close> stores it: with the
  right password, \<open>days = 0\<close> and \<open>days = -5\<close> each create a row carrying that
  value.
\<close>

theorem generate_license_days_unchecked:
  "generate_license example_uuid4 example_clock [] ADMIN_PASSWORD 1 0 [] =
     (Inr (HTMLResponse (GeneratedPage 1 [''3F2504E0-4F89-41D3-9A0C-0305E82C3000'']) 200),
      [\<lparr>key_str = ''3F2504E0-4F89-41D3-9A0C-0305E82C3000'', is_used = 0, hwid = None,
        created_at = ''2024-05-01T12:00:00.000000'', valid_days = 0,
        activated_at = None, note_text = []\<rparr>]) \<and>
   generate_license example_uuid4 example_clock [] ADMIN_PASSWORD 1 (- 5) [] =
     (Inr (HTMLResponse (GeneratedPage 1 [''3F2504E0-4F89-41D3-9A0C-0305E82C3000'']) 200),
      [\<lparr>key_str = ''3F2504E0-4F89-41D3-9A0C-0305E82C3000'', is_used = 0, hwid = None,
        created_at = ''2024-05-01T12:00:00.000000'', valid_days = - 5,
        activated_at = None, note_text = []\<rparr>]) \<and>
   main example_uuid4 example_clock [] 1 0 [] =
     (Inr (1, Stderr ''Error: --days must be -1 or a positive integer.''), []) \<and>
   main example_uuid4 example_clock [] 1 (- 5) [] =
     (Inr (1, Stderr ''Error: --days must be -1 or a positive integer.''), [])"
  by (simp add: generate_license_def main_def insert_license_def new_license_def
        select_license_def sqlite_integer_def example_uuid4_0 example_clock_def)

text \<open>
  C4, as stated: a duplicate key is retried and the batch still yields
  \<open>count\<close> rows. Neither loop catches the \<open>IntegrityError\<close>: when the UUID
  source repeats itself within a batch of two, or draws a key the table already
  holds (where a second draw would have been fresh), the exception reaches the
  caller and no row is committed; the first row of the batch of two stays
  behind, uncommitted, in the abandoned connection.
\<close>

theorem duplicate_key_surfaces_counterexample:
  "generate_license repeating_uuid4 example_clock [] ADMIN_PASSWORD 2 (- 1) [] =
     (Inl (Raised IntegrityError [new_license (repeating_uuid4 0) (- 1) (example_clock 0) []]),
      []) \<and>
   generate_keys repeating_uuid4 example_clock [] 2 (- 1) [] =
     (Inl (Raised IntegrityError [new_license (repeating_uuid4 0) (- 1) (example_clock 0) []]),
      []) \<and>
   generate_license example_uuid4 example_clock [example_bound] ADMIN_PASSWORD 1 (- 1) [] =
     (Inl (Raised IntegrityError [example_bound]), [example_bound])"
proof -
  have two: "nat 2 = Suc (Suc 0)" by simp
  have one: "nat 1 = Suc 0" by simp
  show ?thesis
    unfolding generate_license_def generate_keys_def two one
    by (simp add: insert_license_def new_license_def select_license_def sqlite_integer_def
          repeating_uuid4_def example_bound_def example_fresh_def)
qed

text \<open>
  C4, amended: when a drawn key is already in the table or was drawn earlier
  in the same batch (and \<open>days\<close> fits SQLite's integer), the batch is aborted:
  \<open>generate_license\<close> and \<open>generate_keys\<close> raise \<open>IntegrityError\<close>, there is
  no retry, and no row of the batch is committed: the committed table is the
  one before the call. The connection is not closed; what it had inserted
  stays uncommitted in it.
\<close>

theorem duplicate_key_aborts_batch:
  assumes "sqlite_integer ndays" and "i < nat count"
    and "select_license db (uuid4 i) \<noteq> None \<or> (\<exists>j<i. uuid4 j = uuid4 i)"
  shows "\<exists>db'. generate_license uuid4 clock db ADMIN_PASSWORD count ndays note_str =
                 (Inl (Raised IntegrityError db'), db) \<and>
               generate_keys uuid4 clock db count ndays note_str =
                 (Inl (Raised IntegrityError db'), db)"
proof -
  from assms(3)
  have "select_license db (uuid4 (0 + i)) \<noteq> None \<or> (\<exists>j<i. uuid4 (0 + j) = uuid4 (0 + i))"
    by simp
  from insert_loop_collision [OF assms(1) assms(2) this]
  obtain db' where
    "insert_loop uuid4 clock 0 (nat count) ndays note_str [] db = Inl (IntegrityError, db')"
    by blast
  then show ?thesis by (simp add: generate_license_def generate_keys_def)
qed

theorem duplicate_key_aborts_batch_witness:
  "sqlite_integer (- 1) \<and> (1::nat) < nat 2 \<and> repeating_uuid4 0 = repeating_uuid4 1 \<and>
   (\<exists>db'. generate_license repeating_uuid4 example_clock [] ADMIN_PASSWORD 2 (- 1) ''bulk'' =
            (Inl (Raised IntegrityError db'), []) \<and>
          generate_keys repeating_uuid4 example_clock [] 2 (- 1) ''bulk'' =
            (Inl (Raised IntegrityError db'), []))"
proof -
  have a: "sqlite_integer (- 1)" by (simp add: sqlite_integer_def)
  have b: "(1::nat) < nat 2" by simp
  have c: "select_license [] (repeating_uuid4 1) \<noteq> None \<or>
           (\<exists>j<1. repeating_uuid4 j = repeating_uuid4 1)"
    by (simp add: repeating_uuid4_def)
  have d: "repeating_uuid4 0 = repeating_uuid4 1" by (simp add: repeating_uuid4_def)
  from duplicate_key_aborts_batch [OF a b c, of example_clock "''bulk''"] a b d
  show ?thesis by simp
qed

text \<open>
  C10. A request to \<open>generate_license\<close> whose password is not
  \<open>ADMIN_PASSWORD\<close> is answered with status 403 whatever the table holds and
  whatever the other arguments are, and the table is left as it was.
\<close>

theorem generate_license_wrong_password:
  assumes "password \<noteq> ADMIN_PASSWORD"
  shows "generate_license uuid4 clock db password count ndays note_str =
           (Inr (HTMLResponse PasswordErrorPage 403), db)"
  using assms by (simp add: generate_license_def)

theorem generate_license_wrong_password_witness:
  "''letmein'' \<noteq> ADMIN_PASSWORD \<and>
   generate_license example_uuid4 example_clock [example_bound] ''letmein'' 5 30 ''pilot'' =
     (Inr (HTMLResponse PasswordErrorPage 403), [example_bound])"
proof -
  have a: "''letmein'' \<noteq> ADMIN_PASSWORD" by (simp add: ADMIN_PASSWORD_def)
  from generate_license_wrong_password [OF a] a show ?thesis by simp
qed

section \<open>Activation properties\<close>

text \<open>
  C9. Activating the key of an unactivated row from machine \<open>machine\<close>
  succeeds with the row's \<open>valid_days\<close>; afterwards the row of that key is the
  old one with \<open>is_used = 1\<close>, \<open>hwid = machine\<close> and \<open>activated_at = now\<close>, so
  it is activated.
\<close>

theorem activate_first_time:
  assumes "select_license db key = Some row" and "state_of row = Unactivated"
  shows "fst (activate now db key machine) =
           Inr \<lparr>status = ''success'', msg = msg_activated, days = valid_days row\<rparr> \<and>
         select_license (snd (activate now db key machine)) key =
           Some (row\<lparr>is_used := 1, hwid := Some machine, activated_at := Some now\<rparr>) \<and>
         state_of (row\<lparr>is_used := 1, hwid := Some machine, activated_at := Some now\<rparr>) =
           Activated"
proof -
  from assms(2) have "is_used row \<noteq> 1" by (simp add: state_of_def split: if_splits)
  with assms(1) have "activate now db key machine =
      (Inr \<lparr>status = ''success'', msg = msg_activated, days = valid_days row\<rparr>,
       update_license db machine now key)"
    by (simp add: activate_def)
  with assms(1) show ?thesis
    by (simp add: select_license_update_same state_of_def)
qed

theorem activate_first_time_witness:
  "select_license [example_fresh] (example_uuid4 0) = Some example_fresh \<and>
   state_of example_fresh = Unactivated \<and>
   fst (activate ''2024-05-02T09:30:00.000000'' [example_fresh] (example_uuid4 0) ''HWID-A1'') =
     Inr \<lparr>status = ''success'', msg = msg_activated, days = 30\<rparr> \<and>
   select_license
     (snd (activate ''2024-05-02T09:30:00.000000'' [example_fresh] (example_uuid4 0) ''HWID-A1''))
     (example_uuid4 0) = Some example_bound"
proof -
  have a: "select_license [example_fresh] (example_uuid4 0) = Some example_fresh"
    by (simp add: select_license_def example_fresh_def new_license_def)
  have b: "state_of example_fresh = Unactivated"
    by (simp add: state_of_def example_fresh_def new_license_def)
  have c: "valid_days example_fresh = 30"
    by (simp add: example_fresh_def new_license_def)
  from activate_first_time [OF a b, of "''2024-05-02T09:30:00.000000''" "''HWID-A1''"] a b c
  show ?thesis by (simp add: example_bound_def)
qed

text \<open>
  C7. Activating an activated row again from the machine it is bound to
  succeeds: the answer has the fields of a first activation (\<open>status\<close>
  \<open>success\<close>, \<open>days\<close> the row's \<open>valid_days\<close>; only the greeting \<open>msg\<close>
  differs) and the table, hence \<open>hwid\<close> and \<open>activated_at\<close>, is unchanged. As
  the table is unchanged, the same holds for every further repetition.
\<close>

theorem activate_same_machine:
  assumes "select_license db key = Some row" and "state_of row = Activated"
    and "hwid row = Some machine"
  shows "activate now db key machine =
           (Inr \<lparr>status = ''success'', msg = msg_welcome_back, days = valid_days row\<rparr>, db)"
proof -
  from assms(2) have "is_used row = 1" by (simp add: state_of_def split: if_splits)
  with assms(1,3) show ?thesis by (simp add: activate_def)
qed

theorem activate_same_machine_witness:
  "select_license [example_bound] (example_uuid4 0) = Some example_bound \<and>
   state_of example_bound = Activated \<and> hwid example_bound = Some ''HWID-A1'' \<and>
   activate ''2024-06-11T08:00:00.000000'' [example_bound] (example_uuid4 0) ''HWID-A1'' =
     (Inr \<lparr>status = ''success'', msg = msg_welcome_back, days = 30\<rparr>, [example_bound])"
proof -
  have a: "select_license [example_bound] (example_uuid4 0) = Some example_bound"
    by (simp add: select_license_def example_bound_def example_fresh_def new_license_def)
  have b: "state_of example_bound = Activated"
    by (simp add: state_of_def example_bound_def)
  have c: "hwid example_bound = Some ''HWID-A1''"
    by (simp add: example_bound_def)
  have d: "valid_days example_bound = 30"
    by (simp add: example_bound_def example_fresh_def new_license_def)
  from activate_same_machine [OF a b c, of "''2024-06-11T08:00:00.000000''"] a b c d
  show ?thesis by simp
qed

text \<open>
  C8. Activating an activated row from another machine raises the 403
  exception and leaves the table unchanged. The exception is the same constant
  for every bound machine \<open>m1\<close>: its detail is a fixed literal that does not
  depend on the row.
\<close>

theorem activate_other_machine:
  assumes "select_license db key = Some row" and "state_of row = Activated"
    and "hwid row = Some m1" and "m2 \<noteq> m1"
  shows "activate now db key m2 = (Inl (HTTPException 403 detail_other_device), db)"
proof -
  from assms(2) have "is_used row = 1" by (simp add: state_of_def split: if_splits)
  with assms(1,3,4) show ?thesis by (simp add: activate_def)
qed

theorem activate_other_machine_witness:
  "select_license [example_bound] (example_uuid4 0) = Some example_bound \<and>
   state_of example_bound = Activated \<and> hwid example_bound = Some ''HWID-A1'' \<and>
   ''HWID-B2'' \<noteq> ''HWID-A1'' \<and>
   activate ''2024-06-11T08:00:00.000000'' [example_bound] (example_uuid4 0) ''HWID-B2'' =
     (Inl (HTTPException 403 detail_other_device), [example_bound])"
proof -
  have a: "select_license [example_bound] (example_uuid4 0) = Some example_bound"
    by (simp add: select_license_def example_bound_def example_fresh_def new_license_def)
  have b: "state_of example_bound = Activated"
    by (simp add: state_of_def example_bound_def)
  have c: "hwid example_bound = Some ''HWID-A1''"
    by (simp add: example_bound_def)
  have d: "''HWID-B2'' \<noteq> ''HWID-A1''" by simp
  from activate_other_machine [OF a b c d, of "''2024-06-11T08:00:00.000000''"] a b c d
  show ?thesis by simp
qed

text \<open>
  C6. Whenever an activation is accepted (first activation, or repetition from
  the bound machine), the answer carries the row's stored \<open>valid_days\<close> as it
  is. The outcome does not depend on the time of the request, on
  \<open>activated_at\<close> or on \<open>valid_days\<close>: no expiry is computed and no request is
  refused for it.
\<close>

theorem activate_days_uninterpreted:
  assumes "select_license db key = Some row"
    and "state_of row = Unactivated \<or> hwid row = Some machine"
  shows "(\<exists>a. fst (activate now db key machine) = Inr a \<and> status a = ''success'' \<and>
              days a = valid_days row) \<and>
         fst (activate now' db key machine) = fst (activate now db key machine)"
  using assms by (simp add: activate_def state_of_def split: if_splits)

text \<open>
  A row activated on 2024-05-02 with 30 days of validity still activates in
  2031.
\<close>

theorem activate_days_uninterpreted_witness:
  "select_license [example_bound] (example_uuid4 0) = Some example_bound \<and>
   (state_of example_bound = Unactivated \<or> hwid example_bound = Some ''HWID-A1'') \<and>
   valid_days example_bound = 30 \<and>
   activated_at example_bound = Some ''2024-05-02T09:30:00.000000'' \<and>
   (\<exists>a. fst (activate ''2031-01-01T00:00:00.000000'' [example_bound] (example_uuid4 0)
                ''HWID-A1'') = Inr a \<and>
        status a = ''success'' \<and> days a = 30)"
proof -
  have a: "select_license [example_bound] (example_uuid4 0) = Some example_bound"
    by (simp add: select_license_def example_bound_def example_fresh_def new_license_def)
  have b: "state_of example_bound = Unactivated \<or> hwid example_bound = Some ''HWID-A1''"
    by (simp add: example_bound_def)
  have c: "valid_days example_bound = 30"
    by (simp add: example_bound_def example_fresh_def new_license_def)
  have d: "activated_at example_bound = Some ''2024-05-02T09:30:00.000000''"
    by (simp add: example_bound_def)
  from activate_days_uninterpreted [OF a b, of "''2031-01-01T00:00:00.000000''"] a b c d
  show ?thesis by simp
qed

section \<open>Two activations of one fresh key\<close>

text \<open>
  Serving a request in its two steps, with nothing in between, is \<open>activate\<close>;
  so the two schedules of a single event loop are the two orders of calling
  \<open>activate\<close> twice.
\<close>

lemma activate_two_steps:
  "(case activate_step now db (Arrived key machine) of
      (r, db') \<Rightarrow> activate_step now db' r) =
   (Answered (fst (activate now db key machine)), snd (activate now db key machine))"
  by (simp add: activate_def activate_select_def activate_update_def split: option.splits)

lemma serve_first_then_second:
  "serve [First, First, Second, Second] now1 now2 db (Arrived key m1) (Arrived key m2) =
     (Answered (fst (activate now1 db key m1)),
      Answered (fst (activate now2 (snd (activate now1 db key m1)) key m2)),
      snd (activate now2 (snd (activate now1 db key m1)) key m2))"
  by (simp add: activate_def activate_select_def activate_update_def split: option.splits)

lemma serve_second_then_first:
  "serve [Second, Second, First, First] now1 now2 db (Arrived key m1) (Arrived key m2) =
     (Answered (fst (activate now1 (snd (activate now2 db key m2)) key m1)),
      Answered (fst (activate now2 db key m2)),
      snd (activate now1 (snd (activate now2 db key m2)) key m1))"
  by (simp add: activate_def activate_select_def activate_update_def split: option.splits)

text \<open>
  When both requests read before either writes, both find the key unused, both
  write and both are answered with success; the second \<open>UPDATE\<close> overwrites
  the first.
\<close>

lemma serve_interleaved:
  assumes "select_license db key = Some row" and "is_used row \<noteq> 1"
  shows "serve [First, Second, First, Second] now1 now2 db (Arrived key m1) (Arrived key m2) =
           (Answered (Inr \<lparr>status = ''success'', msg = msg_activated,
                           days = valid_days row\<rparr>),
            Answered (Inr \<lparr>status = ''success'', msg = msg_activated,
                           days = valid_days row\<rparr>),
            update_license (update_license db m1 now1 key) m2 now2 key)"
    and "select_license (update_license (update_license db m1 now1 key) m2 now2 key) key =
           Some (row\<lparr>is_used := 1, hwid := Some m2, activated_at := Some now2\<rparr>)"
  using assms
  by (simp_all add: activate_select_def activate_update_def select_license_update_same)




end
